theory Spec2Isabelle
  imports Complex_Main "HOL-Library.Word"
begin

unbundle bit_operations_syntax

section \<open>JavaScript values and their JSON text\<close>

text \<open>
  The values a tag holds are what the deserializers produce: numbers, booleans, strings
  and objects (arrays included). A number is a finite integer or one of the three
  non-finite doubles; fractional doubles and negative zero are outside the embedding.
  A string is a list of code units below 256. An object is the list of its own
  enumerable properties in enumeration order.
\<close>

datatype js_number = Fin int | NaN | PosInf | NegInf

datatype js_value =
    JUndefined
  | JNull
  | JBool bool
  | JNum js_number
  | JStr string
  | JArr "js_value list"
  | JObj "(string \<times> js_value) list"

text \<open>Number::toString for a finite integer (below 10^21 in magnitude): decimal digits.\<close>

definition digit_char :: "nat \<Rightarrow> char" where
  "digit_char d = ''0123456789'' ! d"

function show_nat :: "nat \<Rightarrow> string" where
  "show_nat n = (if n < 10 then [digit_char n] else show_nat (n div 10) @ [digit_char (n mod 10)])"
  by pat_completeness auto

termination
  by (relation "measure id") auto

declare show_nat.simps [simp del]

definition show_int :: "int \<Rightarrow> string" where
  "show_int i = (if i < 0 then CHR ''-'' # show_nat (nat (- i)) else show_nat (nat i))"

text \<open>The value of a run of decimal digits, as parseInt and Number read it.\<close>

definition digit_val :: "char \<Rightarrow> nat" where
  "digit_val c = (of_char c :: nat) - 48"

definition read_nat :: "string \<Rightarrow> nat" where
  "read_nat s = foldl (\<lambda>a c. 10 * a + digit_val c) 0 s"

text \<open>
  QuoteJSONString: the double quote and the backslash are escaped, the control
  characters take their short escape or a \<open>\u00XX\<close> escape, every other code unit
  is kept. (Lone surrogates, also escaped by the source's runtime, lie above 255.)
\<close>

definition hex_char :: "nat \<Rightarrow> char" where
  "hex_char d = ''0123456789abcdef'' ! d"

definition json_escape :: "char \<Rightarrow> string" where
  "json_escape c =
     (if c = CHR 0x08 then [CHR 0x5C, CHR ''b'']
      else if c = CHR 0x09 then [CHR 0x5C, CHR ''t'']
      else if c = CHR 0x0A then [CHR 0x5C, CHR ''n'']
      else if c = CHR 0x0C then [CHR 0x5C, CHR ''f'']
      else if c = CHR 0x0D then [CHR 0x5C, CHR ''r'']
      else if c = CHR 0x22 then [CHR 0x5C, CHR 0x22]
      else if c = CHR 0x5C then [CHR 0x5C, CHR 0x5C]
      else if (of_char c :: nat) < 32
        then [CHR 0x5C, CHR ''u'', CHR ''0'', CHR ''0'',
              hex_char ((of_char c :: nat) div 16), hex_char ((of_char c :: nat) mod 16)]
      else [c])"

definition json_quote :: "string \<Rightarrow> string" where
  "json_quote s = CHR 0x22 # concat (map json_escape s) @ [CHR 0x22]"

fun join_comma :: "string list \<Rightarrow> string" where
  "join_comma [] = []"
| "join_comma [x] = x"
| "join_comma (x # y # ys) = x @ CHR '','' # join_comma (y # ys)"

text \<open>
  SerializeJSONProperty below the top level: a non-finite number and an undefined array
  element are written \<open>null\<close>, a property whose value is undefined is left out.
\<close>

fun json_text :: "js_value \<Rightarrow> string" where
  "json_text JUndefined = ''null''"
| "json_text JNull = ''null''"
| "json_text (JBool b) = (if b then ''true'' else ''false'')"
| "json_text (JNum n) = (case n of Fin i \<Rightarrow> show_int i | _ \<Rightarrow> ''null'')"
| "json_text (JStr s) = json_quote s"
| "json_text (JArr vs) = CHR ''['' # join_comma (map json_text vs) @ '']''"
| "json_text (JObj ps) =
     CHR ''{'' # join_comma (map (\<lambda>p. json_quote (fst p) @ CHR '':'' # json_text (snd p))
                               (filter (\<lambda>p. snd p \<noteq> JUndefined) ps)) @ ''}''"

text \<open>JSON.stringify: at the top level undefined has no text (the result is undefined).\<close>

definition JSON_stringify :: "js_value \<Rightarrow> string option" where
  "JSON_stringify v = (if v = JUndefined then None else Some (json_text v))"

section \<open>The tag state\<close>

text \<open>
  The type-code table of \<open>enip/cip/data-types\<close> is an enumeration of numeric codes;
  the entries are distinct (\<open>INT_code\<close> is the entry \<open>INT\<close>, a name the logic
  reserves). A tag's datatype is null, a valid type code or a string (a structured-type
  name).
\<close>

datatype cip_type =
    BOOL | SINT | INT_code | DINT | LINT | USINT | UINT | WORD | UDINT
  | REAL | LREAL | TIME | TIME_NSEC | BIT_STRING | STRUCT | STRING

datatype tag_type = NullType | TypeCode cip_type | TypeName string

text \<open>The bit index of a tag: null, or the number parseInt gave (which may be NaN).\<close>

datatype bit_index = NullIndex | NaNIndex | Index nat

type_synonym buffer = "8 word list"

datatype js_error = Error string | RangeError | TypeError

record template =
  structure_handle :: nat
  serialize :: "js_value \<Rightarrow> js_error + buffer"

record controller =
  templates :: "(tag_type \<Rightarrow> template option) option"

record tag_error =
  code :: "nat option"
  status :: "nat option"

record tag_fields =
  bitIndex :: bit_index
  program :: "string option"
  name :: string
  type :: tag_type
  "value" :: js_value
  controller :: "controller option"
  controllerValue :: js_value
  path :: buffer
  stage_write :: bool

record tag_state =
  tag :: tag_fields
  read_size :: nat
  error :: tag_error
  timestamp :: int
  "instance" :: string
  keepAlive :: rat

datatype tag_event = Initialized | Changed js_value | KeepAlive

text \<open>The setter of \<open>value\<close>: stores the value and arms the staged write.\<close>

definition value_set :: "js_value \<Rightarrow> tag_state \<Rightarrow> tag_state" where
  "value_set newValue s = s\<lparr>tag := (tag s)\<lparr>stage_write := True, value := newValue\<rparr>\<rparr>"

text \<open>
  The setter of \<open>controller_value\<close>. The clock reading \<open>now\<close> (milliseconds) stands for
  \<open>new Date()\<close>; the result is the new state and the event emitted, if any. The event
  carries the tag itself in the source; here it carries the previous value only.
\<close>

definition controller_value_set :: "int \<Rightarrow> js_value \<Rightarrow> tag_state \<Rightarrow> tag_state \<times> tag_event option" where
  "controller_value_set now newValue s =
     (if JSON_stringify newValue \<noteq> JSON_stringify (controllerValue (tag s)) then
        let lastValue = controllerValue (tag s);
            s1 = s\<lparr>tag := (tag s)\<lparr>controllerValue := newValue\<rparr>\<rparr>;
            s2 = (if \<not> stage_write (tag s1) then s1\<lparr>tag := (tag s1)\<lparr>value := newValue\<rparr>\<rparr> else s1);
            s3 = s2\<lparr>timestamp := now\<rparr>
        in (s3, Some (if lastValue \<noteq> JNull then Changed lastValue else Initialized))
      else if keepAlive s > 0 then
        (if of_int (now - timestamp s) \<ge> keepAlive s * 1000 then
           let s1 = s\<lparr>tag := (tag s)\<lparr>controllerValue := newValue\<rparr>\<rparr>;
               s2 = (if \<not> stage_write (tag s1) then s1\<lparr>tag := (tag s1)\<lparr>value := newValue\<rparr>\<rparr> else s1);
               s3 = s2\<lparr>timestamp := now\<rparr>
           in (s3, Some KeepAlive)
         else (s, None))
      else (s, None))"

text \<open>unstageWriteRequest: clears the staged write and takes the controller value back.\<close>

definition unstageWriteRequest :: "tag_state \<Rightarrow> tag_state" where
  "unstageWriteRequest s =
     s\<lparr>tag := (tag s)\<lparr>stage_write := False, value := controllerValue (tag s)\<rparr>\<rparr>"

text \<open>A tag state to run the operations on: nothing read yet, no staged write, keep-alive off.\<close>

definition blank_tag :: tag_state where
  "blank_tag =
     \<lparr>tag = \<lparr>bitIndex = NullIndex, program = None, name = ''tag'', type = NullType,
              value = JNull, controller = None, controllerValue = JNull, path = [],
              stage_write = False\<rparr>,
      read_size = 1, error = \<lparr>code = None, status = None\<rparr>, timestamp = 0,
      instance = [], keepAlive = 0\<rparr>"

section \<open>The atomic type codec\<close>

text \<open>
  A Buffer is a list of bytes. Its read and write methods take a byte offset that the
  templates compute as \<open>offset / 8\<close> from a bit offset, so the offset is a rational
  here: an access throws a RangeError unless the offset is a whole number and every byte
  touched lies inside the buffer. A write also throws when the value is outside the range
  of the integer type. Values are integers; the little-endian byte order is written out.
\<close>

definition index_of :: "rat \<Rightarrow> nat option" where
  "index_of q = (if 0 \<le> q \<and> q = of_int \<lfloor>q\<rfloor> then Some (nat \<lfloor>q\<rfloor>) else None)"

definition read_at :: "buffer \<Rightarrow> rat \<Rightarrow> nat \<Rightarrow> js_error + buffer" where
  "read_at data off n =
     (case index_of off of
        None \<Rightarrow> Inl RangeError
      | Some i \<Rightarrow> if i + n \<le> length data then Inr (take n (drop i data)) else Inl RangeError)"

definition write_at :: "buffer \<Rightarrow> rat \<Rightarrow> buffer \<Rightarrow> js_error + buffer" where
  "write_at data off bs =
     (case index_of off of
        None \<Rightarrow> Inl RangeError
      | Some i \<Rightarrow> if i + length bs \<le> length data
                  then Inr (take i data @ bs @ drop (i + length bs) data) else Inl RangeError)"

fun le_bytes :: "nat \<Rightarrow> int \<Rightarrow> buffer" where
  "le_bytes 0 v = []"
| "le_bytes (Suc n) v = word_of_int v # le_bytes n (v div 256)"

fun le_nat :: "buffer \<Rightarrow> int" where
  "le_nat [] = 0"
| "le_nat (b # bs) = uint b + 256 * le_nat bs"

definition to_signed :: "nat \<Rightarrow> int \<Rightarrow> int" where
  "to_signed n v = (if v \<ge> 2 ^ (8 * n - 1) then v - 2 ^ (8 * n) else v)"

definition read_uint :: "nat \<Rightarrow> buffer \<Rightarrow> rat \<Rightarrow> js_error + int" where
  "read_uint n data off = (case read_at data off n of Inl e \<Rightarrow> Inl e | Inr bs \<Rightarrow> Inr (le_nat bs))"

definition read_int :: "nat \<Rightarrow> buffer \<Rightarrow> rat \<Rightarrow> js_error + int" where
  "read_int n data off =
     (case read_at data off n of Inl e \<Rightarrow> Inl e | Inr bs \<Rightarrow> Inr (to_signed n (le_nat bs)))"

definition write_uint :: "nat \<Rightarrow> int \<Rightarrow> buffer \<Rightarrow> rat \<Rightarrow> js_error + buffer" where
  "write_uint n v data off =
     (if v < 0 \<or> v > 2 ^ (8 * n) - 1 then Inl RangeError else write_at data off (le_bytes n v))"

definition write_int :: "nat \<Rightarrow> int \<Rightarrow> buffer \<Rightarrow> rat \<Rightarrow> js_error + buffer" where
  "write_int n v data off =
     (if v < - (2 ^ (8 * n - 1)) \<or> v > 2 ^ (8 * n - 1) - 1 then Inl RangeError
      else write_at data off (le_bytes n v))"

text \<open>The Buffer methods the templates call.\<close>

abbreviation "readUInt8 \<equiv> read_uint 1"

abbreviation "readInt8 \<equiv> read_int 1"

abbreviation "readUInt16LE \<equiv> read_uint 2"

abbreviation "readInt16LE \<equiv> read_int 2"

abbreviation "readUInt32LE \<equiv> read_uint 4"

abbreviation "readInt32LE \<equiv> read_int 4"

abbreviation "readBigUInt64LE \<equiv> read_uint 8"

abbreviation "writeUInt8 \<equiv> write_uint 1"

abbreviation "writeInt8 \<equiv> write_int 1"

abbreviation "writeUInt16LE \<equiv> write_uint 2"

abbreviation "writeInt16LE \<equiv> write_int 2"

abbreviation "writeUInt32LE \<equiv> write_uint 4"

abbreviation "writeInt32LE \<equiv> write_int 4"

abbreviation "writeBigUInt64LE \<equiv> write_uint 8"






















definition TIME_serialize :: "int \<Rightarrow> buffer \<Rightarrow> nat \<Rightarrow> js_error + buffer" where
  "TIME_serialize v data offset = writeBigUInt64LE v data (of_nat offset / 8)"

definition TIME_deserialize :: "buffer \<Rightarrow> nat \<Rightarrow> js_error + rat" where
  "TIME_deserialize data offset =
     (case readBigUInt64LE data (of_nat offset / 8) of
        Inl e \<Rightarrow> Inl e
      | Inr number \<Rightarrow> Inr (of_int number / 1000000000))"

definition TIME_NSEC_serialize :: "int \<Rightarrow> buffer \<Rightarrow> nat \<Rightarrow> js_error + buffer" where
  "TIME_NSEC_serialize v data offset = writeBigUInt64LE v data (of_nat offset / 8)"

definition TIME_NSEC_deserialize :: "buffer \<Rightarrow> nat \<Rightarrow> js_error + rat" where
  "TIME_NSEC_deserialize data offset =
     (case readBigUInt64LE data (of_nat offset / 8) of
        Inl e \<Rightarrow> Inl e
      | Inr number \<Rightarrow> Inr (of_int number / 1000000000))"

text \<open>
  For the statements below. \<open>fits\<close>: the bit offset is byte aligned and \<open>n\<close> bytes of
  the buffer follow it. \<open>round_trips\<close>: serialize succeeds and deserialize of its result
  gives the value back. \<open>int32\<close>: the range of writeInt32LE.
\<close>

definition fits :: "buffer \<Rightarrow> nat \<Rightarrow> nat \<Rightarrow> bool" where
  "fits data offset n = (8 dvd offset \<and> offset div 8 + n \<le> length data)"



section \<open>Write requests\<close>

text \<open>
  The collaborators the tag code calls but does not define: the path-segment encoder
  \<open>CIP.EPATH.segments.DATA.build\<close>, the envelope builder \<open>MessageRouter.build\<close>, the
  numeric code of each entry of the type table, and the MD5 hex digest. They are
  parameters of the embedding.
\<close>

datatype service = READ_TAG | WRITE_TAG | READ_MODIFY_WRITE_TAG

record env =
  DATA_build :: "string \<Rightarrow> buffer"
  MessageRouter_build :: "service \<Rightarrow> buffer \<Rightarrow> buffer \<Rightarrow> buffer"
  type_code :: "cip_type \<Rightarrow> int"
  hash :: "buffer \<Rightarrow> string"

text \<open>
  An instance of the collaborators to run examples with: a segment is encoded as its
  characters, an envelope is the path followed by the payload, every type has code 1 and
  the digest is the text of the bytes.
\<close>

definition test_env :: env where
  "test_env = \<lparr>DATA_build = map of_char, MessageRouter_build = (\<lambda>svc p d. p @ d),
                type_code = (\<lambda>c. 1), hash = map (\<lambda>b. char_of (unat b))\<rparr>"

text \<open>Sequencing of calls that may throw.\<close>

definition and_then :: "js_error + 'a \<Rightarrow> ('a \<Rightarrow> js_error + 'b) \<Rightarrow> js_error + 'b" where
  "and_then r f = (case r of Inl e \<Rightarrow> Inl e | Inr x \<Rightarrow> f x)"

text \<open>ToBoolean, for the conditions on the staged value.\<close>

fun truthy :: "js_value \<Rightarrow> bool" where
  "truthy JUndefined = False"
| "truthy JNull = False"
| "truthy (JBool b) = b"
| "truthy (JNum (Fin i)) = (i \<noteq> 0)"
| "truthy (JNum NaN) = False"
| "truthy (JNum PosInf) = True"
| "truthy (JNum NegInf) = True"
| "truthy (JStr s) = (s \<noteq> [])"
| "truthy (JArr vs) = True"
| "truthy (JObj ps) = True"

text \<open>
  \<open>1 << bitIndex\<close>: the shift count is taken modulo 32 (NaN counts as 0) and the result
  is a signed 32-bit integer.
\<close>

fun shl1 :: "bit_index \<Rightarrow> int" where
  "shl1 (Index n) = to_signed 4 (2 ^ (n mod 32))"
| "shl1 NaNIndex = 1"
| "shl1 NullIndex = 1"

text \<open>
  The payload of the masked write (the switch on the tag type of
  generateWriteMessageRequest): mask length, OR mask, AND mask.
\<close>

definition bit_write_payload :: "tag_type \<Rightarrow> bit_index \<Rightarrow> js_value \<Rightarrow> js_error + buffer" where
  "bit_write_payload ty bi v =
     (if ty = TypeCode SINT then
        and_then (writeInt16LE 1 (replicate 4 0) 0) (\<lambda>buf.
        and_then (writeUInt8 (if truthy v then shl1 bi else 0) buf 2) (\<lambda>buf.
        writeUInt8 (if truthy v then 255 else 255 AND NOT (shl1 bi)) buf 3))
      else if ty = TypeCode INT_code then
        and_then (writeInt16LE 2 (replicate 6 0) 0) (\<lambda>buf.
        and_then (writeUInt16LE (if truthy v then shl1 bi else 0) buf 2) (\<lambda>buf.
        writeUInt16LE (if truthy v then 65535 else 65535 AND NOT (shl1 bi)) buf 4))
      else if ty = TypeCode DINT \<or> ty = TypeCode BIT_STRING then
        and_then (writeInt16LE 4 (replicate 10 0) 0) (\<lambda>buf.
        and_then (writeInt32LE (if truthy v then shl1 bi else 0) buf 2) (\<lambda>buf.
        writeInt32LE (if truthy v then - 1 else - 1 AND NOT (shl1 bi)) buf 6))
      else Inl (Error ''Bit Indexes can only be used on SINT, INT, DINT, or BIT_STRING data types.''))"

text \<open>\<open>_getTemplate\<close>: the template of the tag's type in the controller's table.\<close>

definition type_falsy :: "env \<Rightarrow> tag_type \<Rightarrow> bool" where
  "type_falsy E ty =
     (case ty of NullType \<Rightarrow> True | TypeCode c \<Rightarrow> type_code E c = 0 | TypeName n \<Rightarrow> n = [])"

definition getTemplate :: "env \<Rightarrow> tag_state \<Rightarrow> js_error + template" where
  "getTemplate E s =
     (case controller (tag s) of
        None \<Rightarrow> Inl (Error ''Template read error - tag controller property not set'')
      | Some c \<Rightarrow>
          (case templates c of
             None \<Rightarrow> Inl (Error ''Template read error - tag controller templates property not set'')
           | Some table \<Rightarrow>
               if type_falsy E (type (tag s))
               then Inl (Error ''Template read error - tag type property not set'')
               else (case table (type (tag s)) of
                       None \<Rightarrow> Inl (Error ''Template read error - cannot find template'')
                     | Some t \<Rightarrow> Inr t)))"

text \<open>
  generateWriteMessageRequest. The value defaults to null when it is left out or
  undefined. A value other than null is stored in the tag first (without arming the staged
  write), and stays stored when a later step throws: the result is the state and the
  message or the error.
\<close>

definition generateWriteMessageRequest ::
  "env \<Rightarrow> js_value \<Rightarrow> int \<Rightarrow> tag_state \<Rightarrow> tag_state \<times> (js_error + buffer)" where
  "generateWriteMessageRequest E v size' s =
     (let s1 = (if v \<noteq> JNull \<and> v \<noteq> JUndefined then s\<lparr>tag := (tag s)\<lparr>value := v\<rparr>\<rparr> else s);
          t = tag s1
      in if type t = NullType then
           (s1, Inl (Error ''Tag has not been initialized''))
         else if bitIndex t \<noteq> NullIndex then
           (s1, and_then (bit_write_payload (type t) (bitIndex t) (value t)) (\<lambda>buf.
                  Inr (MessageRouter_build E READ_MODIFY_WRITE_TAG (path t) buf)))
         else
           (s1, and_then (getTemplate E s1) (\<lambda>tmpl.
                and_then
                  (case type t of
                     TypeName n \<Rightarrow>
                       and_then (writeUInt16LE (type_code E STRUCT) (replicate 6 0) 0) (\<lambda>buf.
                       and_then (writeUInt16LE (int (structure_handle tmpl)) buf 2) (\<lambda>buf.
                       writeUInt16LE size' buf 4))
                   | TypeCode c \<Rightarrow>
                       and_then (writeUInt16LE (type_code E c) (replicate 4 0) 0) (\<lambda>buf.
                       writeUInt16LE size' buf 2)
                   | NullType \<Rightarrow> Inl TypeError) (\<lambda>buf.
                and_then (serialize tmpl (value t)) (\<lambda>body.
                  Inr (MessageRouter_build E WRITE_TAG (path t) (buf @ body)))))))"

section \<open>Tag names\<close>

text \<open>
  Regular expressions as the source's RegExp objects use them: character classes,
  sequence, alternative, the optional and the star. \<open>matches\<close> is \<open>RegExp.test\<close> for a
  pattern anchored at both ends; it runs the expression over the text by derivatives.
\<close>

datatype regex =
    Fail
  | Empty
  | Chars "char list"
  | Then regex regex
  | Or regex regex
  | Many regex

definition Maybe :: "regex \<Rightarrow> regex" where
  "Maybe r = Or r Empty"

fun nullable :: "regex \<Rightarrow> bool" where
  "nullable Fail = False"
| "nullable Empty = True"
| "nullable (Chars cs) = False"
| "nullable (Then r s) = (nullable r \<and> nullable s)"
| "nullable (Or r s) = (nullable r \<or> nullable s)"
| "nullable (Many r) = True"

text \<open>Sequence and alternative that drop a branch which cannot match.\<close>

fun then' :: "regex \<Rightarrow> regex \<Rightarrow> regex" where
  "then' Fail s = Fail"
| "then' r Fail = Fail"
| "then' Empty s = s"
| "then' r s = Then r s"

fun or' :: "regex \<Rightarrow> regex \<Rightarrow> regex" where
  "or' Fail s = s"
| "or' r Fail = r"
| "or' r s = Or r s"

fun deriv :: "char \<Rightarrow> regex \<Rightarrow> regex" where
  "deriv c Fail = Fail"
| "deriv c Empty = Fail"
| "deriv c (Chars cs) = (if c \<in> set cs then Empty else Fail)"
| "deriv c (Then r s) =
     (if nullable r then or' (then' (deriv c r) s) (deriv c s) else then' (deriv c r) s)"
| "deriv c (Or r s) = or' (deriv c r) (deriv c s)"
| "deriv c (Many r) = then' (deriv c r) (Many r)"

fun matches :: "regex \<Rightarrow> string \<Rightarrow> bool" where
  "matches r [] = nullable r"
| "matches r (c # cs) = matches (deriv c r) cs"

definition letters :: "char list" where
  "letters = ''abcdefghijklmnopqrstuvwxyzABCDEFGHIJKLMNOPQRSTUVWXYZ''"

definition digits :: "char list" where
  "digits = ''0123456789''"

fun Lit :: "string \<Rightarrow> regex" where
  "Lit [] = Empty"
| "Lit [c] = Chars [c]"
| "Lit (c # cs) = Then (Chars [c]) (Lit cs)"

text \<open>
  The components of isValidTagname. In \<open>nameRegex\<close> the source writes the repeated part
  as a lookahead that captures \<open>_?[a-zA-Z0-9]\<close> followed by a reference to the capture;
  at any position that group has at most one match, so the pair matches what the group
  matches.
\<close>

definition nameRegex :: regex where
  "nameRegex =
     Then (Or (Then (Maybe (Chars ''_'')) (Chars letters)) (Then (Chars ''_'') (Chars digits)))
          (Many (Then (Maybe (Chars ''_'')) (Chars (letters @ digits))))"

definition some_digits :: regex where
  "some_digits = Then (Chars digits) (Many (Chars digits))"

definition multDimArrayRegex :: regex where
  "multDimArrayRegex =
     Then (Chars ''['') (Then some_digits
       (Then (Maybe (Then (Then (Chars '','') some_digits) (Maybe (Then (Chars '','') some_digits))))
             (Chars '']'')))"

definition arrayRegex :: regex where
  "arrayRegex = Then (Chars ''['') (Then some_digits (Chars '']''))"

definition bitIndexRegex :: regex where
  "bitIndexRegex = Then (Chars ''.'') (Then (Chars digits) (Maybe (Chars digits)))"

definition userRegex :: regex where
  "userRegex =
     Then (Maybe (Then (Lit ''Program:'') (Then nameRegex (Chars ''.''))))
    (Then nameRegex
    (Then (Maybe multDimArrayRegex)
    (Then (Many (Then (Chars ''.'') (Then nameRegex (Maybe arrayRegex))))
          (Maybe bitIndexRegex))))"

definition moduleRegex :: regex where
  "moduleRegex =
     Then nameRegex
    (Then (Maybe (Then (Chars '':'') (Then (Chars digits) (Maybe (Chars digits)))))
    (Then (Chars '':'')
    (Then (Chars ''IOC'')
    (Then (Maybe (Then (Chars ''.'') (Then nameRegex (Maybe arrayRegex))))
          (Maybe bitIndexRegex)))))"

text \<open>\<open>String.split\<close> at every character of a class: the fields between them.\<close>

fun split_on :: "(char \<Rightarrow> bool) \<Rightarrow> string \<Rightarrow> string list" where
  "split_on P [] = [[]]"
| "split_on P (c # cs) =
     (if P c then [] # split_on P cs
      else (case split_on P cs of [] \<Rightarrow> [[c]] | w # ws \<Rightarrow> (c # w) # ws))"

definition isValidTagname :: "string \<Rightarrow> bool" where
  "isValidTagname tagname =
     (if \<not> matches userRegex tagname \<and> \<not> matches moduleRegex tagname then False
      else if length (filter (\<lambda>segment. length segment > 40)
                        (split_on (\<lambda>c. c \<in> set '':.[],'') tagname)) > 0 then False
      else True)"

section \<open>The words of an expression\<close>

text \<open>
  What \<open>matches\<close> accepts, as a set of words, to reason about every valid tag name at
  once. \<open>no_dot_end\<close> is a check on the expression: no word of it but the empty one
  ends in a dot.
\<close>

inductive_set star :: "string set \<Rightarrow> string set" for A :: "string set" where
  star_nil: "[] \<in> star A"
| star_app: "u \<in> A \<Longrightarrow> v \<in> star A \<Longrightarrow> u @ v \<in> star A"

fun lang :: "regex \<Rightarrow> string set" where
  "lang Fail = {}"
| "lang Empty = {[]}"
| "lang (Chars cs) = {[c] |c. c \<in> set cs}"
| "lang (Then r s) = {u @ v |u v. u \<in> lang r \<and> v \<in> lang s}"
| "lang (Or r s) = lang r \<union> lang s"
| "lang (Many r) = star (lang r)"

fun no_dot_end :: "regex \<Rightarrow> bool" where
  "no_dot_end Fail = True"
| "no_dot_end Empty = True"
| "no_dot_end (Chars cs) = (CHR ''.'' \<notin> set cs)"
| "no_dot_end (Then r s) = (no_dot_end s \<and> (nullable s \<longrightarrow> no_dot_end r))"
| "no_dot_end (Or r s) = (no_dot_end r \<and> no_dot_end s)"
| "no_dot_end (Many r) = no_dot_end r"

section \<open>Constructing a tag\<close>

text \<open>
  Numbers read from text. After isValidTagname a tag name holds letters, digits and the
  characters \<open>_ : . [ ] ,\<close> only, so a token of it has no white space, sign or decimal
  point; the two conversions below are the source's on such tokens. Numbers are exact
  here; the source's doubles agree with them below 2^53.

  \<open>js_integral s\<close> is \<open>s % 1 === 0\<close>: the text converts to a finite whole number. The
  empty text converts to 0; decimal digits, digits with an exponent, and the hexadecimal,
  octal and binary forms convert to their value, which is finite below 2^1024 - 2^970;
  any other text converts to NaN or Infinity.
\<close>

definition is_digit :: "char \<Rightarrow> bool" where
  "is_digit c = (c \<in> set digits)"

definition hex_digits :: "char list" where
  "hex_digits = ''0123456789abcdefABCDEF''"

definition radix_digit_val :: "char \<Rightarrow> nat" where
  "radix_digit_val c =
     (if is_digit c then digit_val c
      else if c \<in> set ''abcdef'' then (of_char c :: nat) - 87
      else (of_char c :: nat) - 55)"

definition read_radix :: "nat \<Rightarrow> string \<Rightarrow> nat" where
  "read_radix b s = foldl (\<lambda>a c. b * a + radix_digit_val c) 0 s"

definition radix_literal :: "string \<Rightarrow> (nat \<times> char list) option" where
  "radix_literal s =
     (if take 2 s \<in> {''0x'', ''0X''} then Some (16, hex_digits)
      else if take 2 s \<in> {''0o'', ''0O''} then Some (8, ''01234567'')
      else if take 2 s \<in> {''0b'', ''0B''} then Some (2, ''01'')
      else None)"

definition StringToNumber :: "string \<Rightarrow> nat option" where
  "StringToNumber s =
     (if s = [] then Some 0
      else if list_all is_digit s then Some (read_nat s)
      else (case radix_literal s of
              Some (b, ds) \<Rightarrow>
                if drop 2 s \<noteq> [] \<and> list_all (\<lambda>c. c \<in> set ds) (drop 2 s)
                then Some (read_radix b (drop 2 s)) else None
            | None \<Rightarrow>
                (let m = takeWhile is_digit s; e = dropWhile is_digit s
                 in if m \<noteq> [] \<and> e \<noteq> [] \<and> hd e \<in> {CHR ''e'', CHR ''E''} \<and>
                       tl e \<noteq> [] \<and> list_all is_digit (tl e)
                    then Some (read_nat m * 10 ^ read_nat (tl e)) else None)))"

definition js_finite :: "nat \<Rightarrow> bool" where
  "js_finite n = (n < 2 ^ 1024 - 2 ^ 970)"

definition js_integral :: "string \<Rightarrow> bool" where
  "js_integral s = (case StringToNumber s of None \<Rightarrow> False | Some n \<Rightarrow> js_finite n)"

text \<open>
  parseInt: the value of the longest prefix of digits (hexadecimal after \<open>0x\<close>), NaN
  (\<open>None\<close>) when there is none.
\<close>

definition parseInt :: "string \<Rightarrow> nat option" where
  "parseInt s =
     (if take 2 s \<in> {''0x'', ''0X''}
      then (let ds = takeWhile (\<lambda>c. c \<in> set hex_digits) (drop 2 s)
            in if ds = [] then None else Some (read_radix 16 ds))
      else (let ds = takeWhile is_digit s
            in if ds = [] then None else Some (read_nat ds)))"

text \<open>
  Lines 32 to 64 of the constructor: the path segments and the bit index of a tag name
  under a datatype. \<open>pathArr\<close> is the name split at \<open>. [ ] ,\<close> without the empty fields,
  \<open>memArr\<close> the name split at the dots.
\<close>

definition separator :: "char \<Rightarrow> bool" where
  "separator c = (c \<in> set ''.[],'')"

definition pathArr_of :: "string \<Rightarrow> string list" where
  "pathArr_of tagname = filter (\<lambda>segment. length segment > 0) (split_on separator tagname)"

definition memArr_of :: "string \<Rightarrow> string list" where
  "memArr_of tagname = split_on (\<lambda>c. c = CHR ''.'') tagname"

definition isBitIndex :: "string \<Rightarrow> bool" where
  "isBitIndex tagname =
     (let memArr = memArr_of tagname in length memArr > 1 \<and> js_integral (last memArr))"

definition isBitString :: "string \<Rightarrow> tag_type \<Rightarrow> bool" where
  "isBitString tagname datatype =
     (let pathArr = pathArr_of tagname
      in datatype = TypeCode BIT_STRING \<and> pathArr \<noteq> [] \<and> js_integral (last pathArr))"

definition resolve_address :: "string \<Rightarrow> tag_type \<Rightarrow> js_error + (string list \<times> bit_index)" where
  "resolve_address tagname datatype =
     (let pathArr = pathArr_of tagname
      in if isBitString tagname datatype \<and> isBitIndex tagname then
           Inl (Error ''Tag cannot be defined as a BIT_STRING and have a bit index'')
         else if isBitString tagname datatype then
           (case parseInt (last pathArr) of
              None \<Rightarrow> Inr (butlast pathArr @ [''NaN''], NaNIndex)
            | Some n \<Rightarrow>
                let bitIndex' = n mod 32
                in Inr (butlast pathArr @ [show_nat ((n - bitIndex') div 32)], Index bitIndex'))
         else if isBitIndex tagname then
           (case (if pathArr = [] then None else parseInt (last pathArr)) of
              None \<Rightarrow> Inr (butlast pathArr, NaNIndex)
            | Some bitIndex' \<Rightarrow>
                if bitIndex' > 31 then Inl (Error ''Tag bit index must be between 0 and 31'')
                else Inr (butlast pathArr, Index bitIndex'))
         else Inr (pathArr, NullIndex))"

text \<open>
  The arguments of the constructor as JavaScript passes them: a datatype that is null, a
  code of the table or a string, or else some other value; a keep-alive that is a number
  or not.
\<close>

datatype datatype_arg = ValidType tag_type | OtherType

datatype number_arg = Number rat | NotNumber

text \<open>The byte of the bit index in the identity buffer: \<open>writeInt8\<close> of it, 32 for null.\<close>

fun bitIndexByte :: "bit_index \<Rightarrow> js_error + buffer" where
  "bitIndexByte NullIndex = writeInt8 32 [0] 0"
| "bitIndexByte NaNIndex = writeInt8 0 [0] 0"
| "bitIndexByte (Index n) = writeInt8 (int n) [0] 0"

text \<open>The encoded segment of the program scope, pushed first when a program is given.\<close>

definition program_segments :: "env \<Rightarrow> string option \<Rightarrow> buffer list" where
  "program_segments E program' =
     (case program' of
        None \<Rightarrow> []
      | Some p \<Rightarrow> if p = [] then [] else [DATA_build E (''Program:'' @ p)])"

text \<open>
  The constructor. \<open>now\<close> is the clock reading of \<open>new Date()\<close>. The count of instances,
  a module variable no operation of the tag reads, is left out.
\<close>

definition Tag_constructor ::
  "env \<Rightarrow> int \<Rightarrow> string \<Rightarrow> string option \<Rightarrow> datatype_arg \<Rightarrow> number_arg \<Rightarrow> js_error + tag_state" where
  "Tag_constructor E now tagname program' datatype keepAlive' =
     (if \<not> isValidTagname tagname then Inl (Error ''Tagname Must be of Type <string>'')
      else case datatype of
        OtherType \<Rightarrow> Inl (Error ''Datatype must be a Valid Type Code <number> or <string>'')
      | ValidType ty \<Rightarrow>
      (case keepAlive' of
        NotNumber \<Rightarrow> Inl (Error ''Tag expected keepAlive of type <number>'')
      | Number ka \<Rightarrow>
        if ka < 0 then Inl (Error ''Tag expected keepAlive to be greater than 0'')
        else and_then (resolve_address tagname ty) (\<lambda>(pathArr, bitIndex').
          let bufArr = program_segments E program' @ map (DATA_build E) pathArr;
              pathBuf = concat bufArr
          in and_then (bitIndexByte bitIndex') (\<lambda>bitIndexBuf.
             let instanceBuf = pathBuf @ bitIndexBuf
             in Inr \<lparr>tag = \<lparr>bitIndex = bitIndex', program = program', name = tagname, type = ty,
                            value = JNull, controller = None, controllerValue = JNull,
                            path = pathBuf, stage_write = False\<rparr>,
                     read_size = 1, error = \<lparr>code = None, status = None\<rparr>,
                     timestamp = now, instance = hash E instanceBuf, keepAlive = ka\<rparr>))))"

text \<open>The setter of \<open>name\<close>.\<close>

definition name_set :: "string \<Rightarrow> tag_state \<Rightarrow> js_error + tag_state" where
  "name_set name' s =
     (if \<not> isValidTagname name' then Inl (Error ''Tagname Must be of Type <string>'')
      else Inr (s\<lparr>tag := (tag s)\<lparr>name := name'\<rparr>\<rparr>))"

section \<open>Values with a text of their own\<close>







section \<open>Properties of the JSON text\<close>

lemma digit_val_digit_char: "d < 10 \<Longrightarrow> digit_val (digit_char d) = d"
proof -
  assume "d < 10"
  then have "d \<in> {0, 1, 2, 3, 4, 5, 6, 7, 8, 9}" by auto
  then show ?thesis by (auto simp: digit_val_def digit_char_def)
qed

lemma read_nat_snoc: "read_nat (s @ [c]) = 10 * read_nat s + digit_val c"
  by (simp add: read_nat_def)

lemma read_show_nat: "read_nat (show_nat n) = n"
proof (induction n rule: show_nat.induct)
  case (1 n)
  show ?case
  proof (cases "n < 10")
    case True
    then show ?thesis
      by (simp add: show_nat.simps [of n] read_nat_def digit_val_digit_char)
  next
    case False
    with 1 show ?thesis
      by (simp add: show_nat.simps [of n] read_nat_snoc digit_val_digit_char)
  qed
qed

lemma show_nat_inj: "show_nat m = show_nat n \<Longrightarrow> m = n"
  by (metis read_show_nat)

lemma digit_char_in: "d < 10 \<Longrightarrow> digit_char d \<in> set ''0123456789''"
proof -
  assume "d < 10"
  then have "d \<in> {0, 1, 2, 3, 4, 5, 6, 7, 8, 9}" by auto
  then show ?thesis by (auto simp: digit_char_def)
qed

lemma show_nat_digits: "set (show_nat n) \<subseteq> set ''0123456789''"
proof (induction n rule: show_nat.induct)
  case (1 n)
  show ?case
  proof (cases "n < 10")
    case True
    then show ?thesis
      using digit_char_in [of n] by (simp add: show_nat.simps [of n])
  next
    case False
    with 1 digit_char_in [of "n mod 10"] show ?thesis
      by (simp add: show_nat.simps [of n])
  qed
qed

lemma show_nat_nonempty: "show_nat n \<noteq> []"
  by (simp add: show_nat.simps [of n])

lemma show_nat_hd: "hd (show_nat n) \<in> set ''0123456789''"
  using show_nat_digits [of n] show_nat_nonempty [of n] hd_in_set by blast

lemma show_int_inj: "show_int i = show_int j \<Longrightarrow> i = j"
proof -
  assume eq: "show_int i = show_int j"
  have neg: "CHR ''-'' # show_nat a \<noteq> show_nat b" for a b
  proof
    assume "CHR ''-'' # show_nat a = show_nat b"
    then have "hd (show_nat b) = CHR ''-''" by (metis list.sel(1))
    with show_nat_hd [of b] show False by simp
  qed
  show ?thesis
  proof (cases "i < 0")
    case True
    note i = this
    show ?thesis
    proof (cases "j < 0")
      case True
      with i eq have "nat (- i) = nat (- j)" by (auto simp: show_int_def dest: show_nat_inj)
      with i True show ?thesis by simp
    next
      case False
      with i eq neg show ?thesis by (auto simp: show_int_def)
    qed
  next
    case False
    note i = this
    show ?thesis
    proof (cases "j < 0")
      case True
      with i eq neg [of "nat (- j)" "nat i"] show ?thesis by (auto simp: show_int_def)
    next
      case False
      with i eq have "nat i = nat j" by (auto simp: show_int_def dest: show_nat_inj)
      with i False show ?thesis by simp
    qed
  qed
qed

lemma show_int_Cons: "\<exists>c cs. show_int i = c # cs \<and> c \<in> set ''-0123456789''"
proof -
  obtain c cs where "show_nat (nat i) = c # cs"
    using show_nat_nonempty [of "nat i"] by (cases "show_nat (nat i)") auto
  with show_nat_hd [of "nat i"] show ?thesis
    by (auto simp: show_int_def)
qed

lemma json_text_number_only:
  assumes "json_text v = show_int i"
  shows "v = JNum (Fin i)"
proof -
  obtain c cs where c: "show_int i = c # cs" "c \<in> set ''-0123456789''"
    using show_int_Cons by blast
  from assms c have t: "json_text v = c # cs" by simp
  show ?thesis
  proof (cases v)
    case (JNum n)
    with t c(2) assms show ?thesis
      by (cases n) (auto dest: show_int_inj)
  next
    case (JStr s)
    with t c(2) show ?thesis by (auto simp: json_quote_def)
  qed (use t c(2) in \<open>auto split: if_splits\<close>)
qed

lemma JSON_stringify_number:
  "JSON_stringify v = JSON_stringify (JNum (Fin i)) \<longleftrightarrow> v = JNum (Fin i)"
  by (auto simp: JSON_stringify_def dest: json_text_number_only split: if_splits)

lemma stringify_num_neq: "i \<noteq> j \<Longrightarrow> JSON_stringify (JNum (Fin i)) \<noteq> JSON_stringify (JNum (Fin j))"
  using JSON_stringify_number [of "JNum (Fin i)" j] by simp

lemma stringify_num_null: "JSON_stringify (JNum (Fin i)) \<noteq> JSON_stringify JNull"
  using JSON_stringify_number [of JNull i] by simp

section \<open>The staged value and the controller value\<close>

text \<open>
  C2. While a write is staged, the setter of \<open>controller_value\<close> leaves the local value
  alone. After the local value is set to 10, an update with 7 leaves the local value at 10
  and makes the controller value 7; unstaging then clears the flag and sets the local value
  to 7.
\<close>

theorem stage_isolation:
  "(stage_write (tag s) \<longrightarrow>
      value (tag (fst (controller_value_set now v s))) = value (tag s) \<and>
      stage_write (tag (fst (controller_value_set now v s)))) \<and>
   (let s1 = value_set (JNum (Fin 10)) s0;
        s2 = fst (controller_value_set now' (JNum (Fin 7)) s1);
        s3 = unstageWriteRequest s2
    in value (tag s1) = JNum (Fin 10) \<and> stage_write (tag s1) \<and>
       value (tag s2) = JNum (Fin 10) \<and> controllerValue (tag s2) = JNum (Fin 7) \<and>
       stage_write (tag s2) \<and>
       \<not> stage_write (tag s3) \<and> value (tag s3) = JNum (Fin 7))"
proof -
  have general: "value (tag (fst (controller_value_set t w r))) = value (tag r) \<and>
      stage_write (tag (fst (controller_value_set t w r)))" if "stage_write (tag r)" for t w r
    using that by (simp add: controller_value_set_def Let_def)
  have cv: "controllerValue (tag (fst (controller_value_set t (JNum (Fin 7)) r))) = JNum (Fin 7)" for t r
  proof (cases "JSON_stringify (JNum (Fin 7)) = JSON_stringify (controllerValue (tag r))")
    case True
    then have "controllerValue (tag r) = JNum (Fin 7)"
      using JSON_stringify_number [of "controllerValue (tag r)" 7] by simp
    then show ?thesis by (simp add: controller_value_set_def Let_def)
  next
    case False
    then show ?thesis by (simp add: controller_value_set_def Let_def)
  qed
  have armed: "stage_write (tag (value_set (JNum (Fin 10)) s0))"
    "value (tag (value_set (JNum (Fin 10)) s0)) = JNum (Fin 10)"
    by (simp_all add: value_set_def)
  show ?thesis
    using general [of s now v] general [OF armed(1), of now' "JNum (Fin 7)"] armed
      cv [of now' "value_set (JNum (Fin 10)) s0"]
    by (simp add: Let_def unstageWriteRequest_def)
qed

theorem stage_isolation_witness:
  "stage_write (tag (value_set (JNum (Fin 10)) blank_tag)) \<and>
   value (tag (fst (controller_value_set 5 (JNum (Fin 7)) (value_set (JNum (Fin 10)) blank_tag)))) = JNum (Fin 10) \<and>
   controllerValue (tag (fst (controller_value_set 5 (JNum (Fin 7)) (value_set (JNum (Fin 10)) blank_tag)))) = JNum (Fin 7) \<and>
   value (tag (unstageWriteRequest (fst (controller_value_set 5 (JNum (Fin 7)) (value_set (JNum (Fin 10)) blank_tag))))) = JNum (Fin 7)"
  using stage_isolation [where s = "value_set (JNum (Fin 10)) blank_tag" and now = 5
      and v = "JNum (Fin 7)" and s0 = blank_tag and now' = 5]
  by (simp add: Let_def value_set_def)

text \<open>
  C3, with the keep-alive case. From an uninitialized tag (controller value null, no write
  staged) the updates 5, 5, 6 emit Initialized on the first call and Changed with previous
  value 5 on the third; the second call emits nothing, unless keep-alive is on and its
  interval has elapsed since the first call, in which case it emits KeepAlive. After each
  call the local value is the value just applied.
\<close>

theorem change_detection:
  assumes "controllerValue (tag s) = JNull" and "\<not> stage_write (tag s)"
  shows "let r1 = controller_value_set t1 (JNum (Fin 5)) s;
             r2 = controller_value_set t2 (JNum (Fin 5)) (fst r1);
             r3 = controller_value_set t3 (JNum (Fin 6)) (fst r2)
         in snd r1 = Some Initialized \<and> value (tag (fst r1)) = JNum (Fin 5) \<and>
            snd r2 = (if keepAlive s > 0 \<and> keepAlive s * 1000 \<le> of_int (t2 - t1)
                      then Some KeepAlive else None) \<and>
            value (tag (fst r2)) = JNum (Fin 5) \<and>
            snd r3 = Some (Changed (JNum (Fin 5))) \<and> value (tag (fst r3)) = JNum (Fin 6)"
  using assms stringify_num_null [of 5] stringify_num_neq [of 6 5]
  by (simp add: controller_value_set_def Let_def)

theorem change_detection_witness:
  "controllerValue (tag blank_tag) = JNull \<and> \<not> stage_write (tag blank_tag) \<and>
   snd (controller_value_set 0 (JNum (Fin 5)) blank_tag) = Some Initialized \<and>
   snd (controller_value_set 2000 (JNum (Fin 5)) (fst (controller_value_set 0 (JNum (Fin 5)) blank_tag))) = None \<and>
   snd (controller_value_set 4000 (JNum (Fin 6))
     (fst (controller_value_set 2000 (JNum (Fin 5)) (fst (controller_value_set 0 (JNum (Fin 5)) blank_tag)))))
     = Some (Changed (JNum (Fin 5)))"
proof -
  have h: "controllerValue (tag blank_tag) = JNull" "\<not> stage_write (tag blank_tag)"
    by (simp_all add: blank_tag_def)
  have k: "keepAlive blank_tag = 0" by (simp add: blank_tag_def)
  show ?thesis
    using h change_detection [OF h, of 0 2000 4000] k by (simp add: Let_def)
qed

text \<open>
  With a keep-alive of one second and the second update one second after the first, the
  second call emits KeepAlive: the unqualified "no event on the second call" fails.
\<close>

theorem change_detection_counterexample:
  "controllerValue (tag (blank_tag\<lparr>keepAlive := 1\<rparr>)) = JNull \<and>
   \<not> stage_write (tag (blank_tag\<lparr>keepAlive := 1\<rparr>)) \<and>
   snd (controller_value_set 0 (JNum (Fin 5)) (blank_tag\<lparr>keepAlive := 1\<rparr>)) = Some Initialized \<and>
   snd (controller_value_set 1000 (JNum (Fin 5))
          (fst (controller_value_set 0 (JNum (Fin 5)) (blank_tag\<lparr>keepAlive := 1\<rparr>)))) = Some KeepAlive"
  using stringify_num_null [of 5]
  by (simp add: controller_value_set_def Let_def blank_tag_def)

text \<open>
  C9. With a keep-alive of one second, an update whose JSON text equals that of the
  controller value changes nothing and emits nothing less than one second after the last
  update, and emits KeepAlive and sets the timestamp to the clock reading from one second
  on. No update emits KeepAlive when the keep-alive is 0 or the elapsed time is below it.
\<close>

theorem keep_alive:
  "(keepAlive s = 1 \<and> JSON_stringify v = JSON_stringify (controllerValue (tag s)) \<longrightarrow>
      (now - timestamp s < 1000 \<longrightarrow> controller_value_set now v s = (s, None)) \<and>
      (now - timestamp s \<ge> 1000 \<longrightarrow>
         snd (controller_value_set now v s) = Some KeepAlive \<and>
         timestamp (fst (controller_value_set now v s)) = now)) \<and>
   (keepAlive s = 0 \<or> of_int (now - timestamp s) < keepAlive s * 1000 \<longrightarrow>
      snd (controller_value_set now w s) \<noteq> Some KeepAlive)"
  by (auto simp: controller_value_set_def Let_def)

theorem keep_alive_witness:
  "keepAlive (fst (controller_value_set 0 (JNum (Fin 5)) (blank_tag\<lparr>keepAlive := 1\<rparr>))) = 1 \<and>
   controller_value_set 999 (JNum (Fin 5)) (fst (controller_value_set 0 (JNum (Fin 5)) (blank_tag\<lparr>keepAlive := 1\<rparr>)))
     = (fst (controller_value_set 0 (JNum (Fin 5)) (blank_tag\<lparr>keepAlive := 1\<rparr>)), None) \<and>
   snd (controller_value_set 1000 (JNum (Fin 5)) (fst (controller_value_set 0 (JNum (Fin 5)) (blank_tag\<lparr>keepAlive := 1\<rparr>))))
     = Some KeepAlive \<and>
   timestamp (fst (controller_value_set 1000 (JNum (Fin 5)) (fst (controller_value_set 0 (JNum (Fin 5)) (blank_tag\<lparr>keepAlive := 1\<rparr>)))))
     = 1000 \<and>
   snd (controller_value_set 5000 (JNum (Fin 5)) (fst (controller_value_set 0 (JNum (Fin 5)) blank_tag)))
     \<noteq> Some KeepAlive"
proof -
  define s where "s = fst (controller_value_set 0 (JNum (Fin 5)) (blank_tag\<lparr>keepAlive := 1\<rparr>))"
  define s' where "s' = fst (controller_value_set 0 (JNum (Fin 5)) blank_tag)"
  have s: "keepAlive s = 1" "timestamp s = 0" "controllerValue (tag s) = JNum (Fin 5)"
    using stringify_num_null [of 5]
    by (simp_all add: s_def controller_value_set_def Let_def blank_tag_def)
  have s': "keepAlive s' = 0"
    using stringify_num_null [of 5]
    by (simp_all add: s'_def controller_value_set_def Let_def blank_tag_def)
  show ?thesis
    using keep_alive [of s "JNum (Fin 5)" 999 "JNum (Fin 5)"]
      keep_alive [of s "JNum (Fin 5)" 1000 "JNum (Fin 5)"]
      keep_alive [of s' "JNum (Fin 5)" 5000 "JNum (Fin 5)"] s s'
    unfolding s_def [symmetric] s'_def [symmetric] by simp
qed

section \<open>Properties of the atomic type codec\<close>

lemma index_of_div8: "index_of (of_nat n / 8) = (if 8 dvd n then Some (n div 8) else None)"
proof (cases "8 dvd n")
  case True
  then obtain k where k: "n = 8 * k" by (auto simp: dvd_def)
  have "(of_nat (8 * k) :: rat) / 8 = of_nat k" by simp
  then show ?thesis using k by (simp add: index_of_def)
next
  case False
  have "(of_nat n :: rat) / 8 \<noteq> of_int z" for z
  proof
    assume "(of_nat n :: rat) / 8 = of_int z"
    then have "(of_nat n :: rat) = of_int (8 * z)" by simp
    then have "int n = 8 * z" by (metis of_int_eq_iff of_int_of_nat_eq)
    then have "8 dvd int n" by simp
    then have "8 dvd n" by presburger
    with False show False by simp
  qed
  with False show ?thesis by (simp add: index_of_def)
qed

lemma index_of_nat: "index_of (of_nat n) = Some n"
  by (simp add: index_of_def)

lemma length_le_bytes: "length (le_bytes n v) = n"
  by (induction n arbitrary: v) auto

lemma le_nat_le_bytes: "le_nat (le_bytes n v) = v mod 2 ^ (8 * n)"
proof (induction n arbitrary: v)
  case 0
  then show ?case by simp
next
  case (Suc n)
  have b: "uint (word_of_int v :: 8 word) = v mod 256"
    by (simp add: uint_word_of_int)
  have p: "(2::int) ^ (8 * Suc n) = 256 * 2 ^ (8 * n)" by (simp add: power_add)
  have "le_nat (le_bytes (Suc n) v) = v mod 256 + 256 * (v div 256 mod 2 ^ (8 * n))"
    using Suc [of "v div 256"] b by simp
  also have "\<dots> = v mod (256 * 2 ^ (8 * n))"
    using zmod_zmult2_eq [of "2 ^ (8 * n)" v 256] by simp
  finally show ?case unfolding p .
qed

lemma read_write_at:
  "write_at data off bs = Inr data' \<Longrightarrow> read_at data' off (length bs) = Inr bs \<and> length data' = length data"
  by (auto simp: write_at_def read_at_def split: option.splits if_splits)

lemma write_at_ok:
  "index_of off = Some i \<Longrightarrow> i + length bs \<le> length data \<Longrightarrow> \<exists>data'. write_at data off bs = Inr data'"
  by (simp add: write_at_def)


lemma write_read_uint:
  assumes "index_of off = Some i" "i + n \<le> length data" "0 \<le> v" "v \<le> 2 ^ (8 * n) - 1"
  shows "\<exists>data'. write_uint n v data off = Inr data' \<and> read_uint n data' off = Inr v \<and>
           length data' = length data"
proof -
  obtain data' where w: "write_at data off (le_bytes n v) = Inr data'"
    using write_at_ok [OF assms(1), of "le_bytes n v" data] assms(2) by (auto simp: length_le_bytes)
  from read_write_at [OF w] have r: "read_at data' off n = Inr (le_bytes n v)" "length data' = length data"
    by (simp_all add: length_le_bytes)
  have "v mod 2 ^ (8 * n) = v" using assms(3,4) by simp
  with w r assms(3,4) show ?thesis
    by (simp add: write_uint_def read_uint_def le_nat_le_bytes)
qed













lemma fits_index:
  "fits data offset n \<Longrightarrow> index_of (of_nat offset / 8) = Some (offset div 8) \<and> offset div 8 + n \<le> length data"
  by (simp add: fits_def index_of_div8)


lemma uint_trip:
  assumes "fits data offset n" "0 \<le> v" "v \<le> 2 ^ (8 * n) - 1"
  shows "\<exists>data'. write_uint n v data (of_nat offset / 8) = Inr data' \<and>
           read_uint n data' (of_nat offset / 8) = Inr v \<and> length data' = length data"
  using fits_index [OF assms(1)] write_read_uint [of "of_nat offset / 8" "offset div 8" n data v] assms(2,3)
  by blast













lemma TIME_trip:
  assumes "fits data offset 8" "0 \<le> v" "v \<le> 18446744073709551615"
  shows "\<exists>data'. TIME_serialize v data offset = Inr data' \<and>
           TIME_deserialize data' offset = Inr (of_int v / 1000000000)"
  using uint_trip [OF assms(1), of v] assms(2,3)
  by (auto simp: TIME_serialize_def TIME_deserialize_def)

lemma TIME_NSEC_trip:
  assumes "fits data offset 8" "0 \<le> v" "v \<le> 18446744073709551615"
  shows "\<exists>data'. TIME_NSEC_serialize v data offset = Inr data' \<and>
           TIME_NSEC_deserialize data' offset = Inr (of_int v / 1000000000)"
  using uint_trip [OF assms(1), of v] assms(2,3)
  by (auto simp: TIME_NSEC_serialize_def TIME_NSEC_deserialize_def)




section \<open>The masked write\<close>

lemma int_payload:
  "bit_write_payload (TypeCode INT_code) (Index 3) w =
     Inr (if truthy w then [2, 0, 8, 0, 0xFF, 0xFF] else [2, 0, 0, 0, 0xF7, 0xFF])"
proof -
  have i: "index_of 0 = Some 0" "index_of 2 = Some 2" "index_of 4 = Some 4"
    using index_of_nat [of 0] index_of_nat [of 2] index_of_nat [of 4] by simp_all
  have s: "to_signed 4 8 = 8" by (simp add: to_signed_def)
  have m: "(65535 :: int) AND NOT 8 = 65527" by code_simp
  have b: "le_bytes 2 v = [word_of_int v, word_of_int (v div 256)]" for v
    by (simp add: numeral_2_eq_2)
  show ?thesis
    by (simp add: bit_write_payload_def and_then_def write_int_def write_uint_def write_at_def
        i s m b)
qed

text \<open>
  C8. For a tag of the 16-bit type INT with bit index 3, the masked write carries the mask
  length 2, then the OR mask 0x0008 and the AND mask 0xFFFF when the staged value is truthy,
  the OR mask 0x0000 and the AND mask 0xFFF7 when it is falsy, all little-endian; the
  request is the envelope of the read-modify-write service around that payload.
\<close>

theorem bitmask_write:
  assumes "type (tag s) = TypeCode INT_code" and "bitIndex (tag s) = Index 3"
  shows "let staged = (if v \<noteq> JNull \<and> v \<noteq> JUndefined then v else value (tag s));
             payload = (if truthy staged then [2, 0, 8, 0, 0xFF, 0xFF] else [2, 0, 0, 0, 0xF7, 0xFF])
         in bit_write_payload (type (tag s)) (bitIndex (tag s)) staged = Inr payload \<and>
            snd (generateWriteMessageRequest E v size' s) =
              Inr (MessageRouter_build E READ_MODIFY_WRITE_TAG (path (tag s)) payload)"
  using assms by (simp add: generateWriteMessageRequest_def Let_def int_payload and_then_def)

theorem bitmask_write_witness:
  "snd (generateWriteMessageRequest test_env (JBool True) 1
          (blank_tag\<lparr>tag := (tag blank_tag)\<lparr>type := TypeCode INT_code, bitIndex := Index 3\<rparr>\<rparr>))
     = Inr [2, 0, 8, 0, 0xFF, 0xFF] \<and>
   snd (generateWriteMessageRequest test_env (JBool False) 1
          (blank_tag\<lparr>tag := (tag blank_tag)\<lparr>type := TypeCode INT_code, bitIndex := Index 3\<rparr>\<rparr>))
     = Inr [2, 0, 0, 0, 0xF7, 0xFF] \<and>
   snd (generateWriteMessageRequest test_env JNull 1
          (blank_tag\<lparr>tag := (tag blank_tag)\<lparr>type := TypeCode INT_code, bitIndex := Index 3,
             value := JNum (Fin 1)\<rparr>\<rparr>))
     = Inr [2, 0, 8, 0, 0xFF, 0xFF]"
proof -
  let ?s = "blank_tag\<lparr>tag := (tag blank_tag)\<lparr>type := TypeCode INT_code, bitIndex := Index 3\<rparr>\<rparr>"
  let ?r = "blank_tag\<lparr>tag := (tag blank_tag)\<lparr>type := TypeCode INT_code, bitIndex := Index 3,
             value := JNum (Fin 1)\<rparr>\<rparr>"
  have h: "type (tag ?s) = TypeCode INT_code" "bitIndex (tag ?s) = Index 3"
    "type (tag ?r) = TypeCode INT_code" "bitIndex (tag ?r) = Index 3"
    by simp_all
  have p: "path (tag ?s) = []" "path (tag ?r) = []" "value (tag ?r) = JNum (Fin 1)"
    by (simp_all add: blank_tag_def)
  show ?thesis
    using bitmask_write [OF h(1,2), of "JBool True" test_env 1]
      bitmask_write [OF h(1,2), of "JBool False" test_env 1]
      bitmask_write [OF h(3,4), of JNull test_env 1] p
    by (simp add: Let_def test_env_def)
qed

section \<open>Properties of tag names\<close>

lemma nullable_lang: "nullable r \<longleftrightarrow> [] \<in> lang r"
  by (induction r) (auto intro: star_nil)

lemma lang_then': "lang (then' r s) = lang (Then r s)"
  by (induction r s rule: then'.induct) auto

lemma lang_or': "lang (or' r s) = lang (Or r s)"
  by (induction r s rule: or'.induct) auto

lemma star_cons:
  "c # w \<in> star A \<longleftrightarrow> (\<exists>u v. w = u @ v \<and> c # u \<in> A \<and> v \<in> star A)"
proof
  have "x \<in> star A \<Longrightarrow> x = c # w \<Longrightarrow> \<exists>u v. w = u @ v \<and> c # u \<in> A \<and> v \<in> star A" for x
  proof (induction arbitrary: w rule: star.induct)
    case star_nil
    then show ?case by simp
  next
    case (star_app u v)
    show ?case
    proof (cases u)
      case Nil
      with star_app show ?thesis by simp
    next
      case (Cons a u')
      with star_app.prems have "a = c" "w = u' @ v" by simp_all
      with Cons star_app.hyps show ?thesis by blast
    qed
  qed
  then show "c # w \<in> star A \<Longrightarrow> \<exists>u v. w = u @ v \<and> c # u \<in> A \<and> v \<in> star A"
    by blast
next
  assume "\<exists>u v. w = u @ v \<and> c # u \<in> A \<and> v \<in> star A"
  then obtain u v where "w = u @ v" "c # u \<in> A" "v \<in> star A" by blast
  then show "c # w \<in> star A" using star_app [of "c # u" A v] by simp
qed

lemma lang_deriv: "lang (deriv c r) = {w. c # w \<in> lang r}"
proof (induction r)
  case (Then r s)
  have "{w. c # w \<in> lang (Then r s)} =
      {u @ v |u v. c # u \<in> lang r \<and> v \<in> lang s} \<union> (if [] \<in> lang r then {w. c # w \<in> lang s} else {})"
    by (auto simp: Cons_eq_append_conv)
  with Then show ?case
    by (auto simp: lang_then' lang_or' nullable_lang)
next
  case (Many r)
  then show ?case by (auto simp: lang_then' star_cons)
qed (auto simp: lang_or')

lemma matches_lang: "matches r w \<longleftrightarrow> w \<in> lang r"
  by (induction w arbitrary: r) (simp_all add: nullable_lang lang_deriv)

lemma star_last:
  assumes "w \<in> star A" "w \<noteq> []" "\<And>u. u \<in> A \<Longrightarrow> u \<noteq> [] \<Longrightarrow> last u \<noteq> c"
  shows "last w \<noteq> c"
  using assms(1,2)
proof (induction rule: star.induct)
  case star_nil
  then show ?case by simp
next
  case (star_app u v)
  then show ?case using assms(3) [of u] by (cases "v = []") auto
qed

lemma no_dot_end_last:
  "no_dot_end r \<Longrightarrow> w \<in> lang r \<Longrightarrow> w \<noteq> [] \<Longrightarrow> last w \<noteq> CHR ''.''"
proof (induction r arbitrary: w)
  case (Then r s)
  from Then.prems(2) obtain u v where w: "w = u @ v" "u \<in> lang r" "v \<in> lang s" by auto
  show ?case
  proof (cases "v = []")
    case True
    with w have "nullable s" by (simp add: nullable_lang)
    with Then.prems(1) have "no_dot_end r" by simp
    with Then.IH(1) [of u] w True Then.prems(3) show ?thesis by simp
  next
    case False
    with Then.IH(2) [of v] Then.prems(1) w show ?thesis by simp
  qed
next
  case (Many r)
  then show ?case using star_last [of w "lang r" "CHR ''.''"] by auto
qed auto

lemma valid_no_dot_end:
  assumes "isValidTagname tagname"
  shows "tagname \<noteq> [] \<and> last tagname \<noteq> CHR ''.''"
proof -
  have u: "no_dot_end userRegex" "\<not> nullable userRegex" by code_simp+
  have m: "no_dot_end moduleRegex" "\<not> nullable moduleRegex" by code_simp+
  from assms have "tagname \<in> lang userRegex \<or> tagname \<in> lang moduleRegex"
    by (auto simp: isValidTagname_def matches_lang split: if_splits)
  then show ?thesis
    using u m no_dot_end_last [of userRegex tagname] no_dot_end_last [of moduleRegex tagname]
    by (auto simp: nullable_lang)
qed

section \<open>Properties of the constructor\<close>

lemma js_finite_small: "n < 2 ^ 64 \<Longrightarrow> js_finite n"
proof -
  assume "n < 2 ^ 64"
  moreover have "(2::nat) ^ 64 \<le> 2 ^ 970" by (rule power_increasing) simp_all
  moreover have "(2::nat) ^ 970 + 2 ^ 970 \<le> 2 ^ 1024"
  proof -
    have "(2::nat) ^ 970 + 2 ^ 970 = 2 ^ 971" by simp
    also have "\<dots> \<le> 2 ^ 1024" by (rule power_increasing) simp_all
    finally show ?thesis .
  qed
  ultimately show ?thesis unfolding js_finite_def by linarith
qed

lemmas addr_eval = resolve_address_def isBitString_def isBitIndex_def pathArr_of_def memArr_of_def
  js_integral_def StringToNumber_def radix_literal_def parseInt_def is_digit_def digits_def
  read_nat_def digit_val_def Let_def separator_def js_finite_small

lemma split_on_nonempty: "split_on P s \<noteq> []"
  by (induction s) (auto split: list.splits)

lemma split_on_plain: "\<forall>c \<in> set t. \<not> P c \<Longrightarrow> split_on P t = [t]"
  by (induction t) auto

lemma split_on_many: "length (split_on P s) > 1 \<longleftrightarrow> (\<exists>c \<in> set s. P c)"
proof (induction s)
  case Nil
  then show ?case by simp
next
  case (Cons c s)
  then show ?case
    using split_on_nonempty [of P s] by (cases "split_on P s") (auto split: list.splits)
qed

lemma last_split_on_Cons:
  "length (split_on P s) > 1 \<Longrightarrow> last (split_on P (c # s)) = last (split_on P s)"
  using split_on_nonempty [of P s] by (cases "split_on P s") (auto split: list.splits)

lemma last_split_on_sep:
  assumes "P d" "\<forall>c \<in> set t. \<not> P c"
  shows "last (split_on P (s @ d # t)) = t"
proof (induction s)
  case Nil
  with assms show ?case by (simp add: split_on_plain)
next
  case (Cons c s)
  have "length (split_on P (s @ d # t)) > 1"
    using split_on_many [of P "s @ d # t"] assms(1) by auto
  from last_split_on_Cons [OF this, of c] Cons show ?case by simp
qed

lemma split_on_decompose:
  assumes "\<exists>c \<in> set s. P c"
  shows "\<exists>pre d. s = pre @ d # last (split_on P s) \<and> P d \<and> (\<forall>c \<in> set (last (split_on P s)). \<not> P c)"
proof -
  from assms obtain pre d t where s: "s = pre @ d # t" "P d" "\<forall>c \<in> set t. \<not> P c"
    using split_list_last_prop [of s P] by blast
  with last_split_on_sep [of P d t pre] show ?thesis by auto
qed

lemma last_filter_keep: "xs \<noteq> [] \<Longrightarrow> Q (last xs) \<Longrightarrow> last (filter Q xs) = last xs"
  by (induction xs rule: rev_induct) auto

lemma digit_not_separator: "is_digit c \<Longrightarrow> \<not> separator c"
  by (auto simp: is_digit_def digits_def separator_def)

lemma hex_not_separator: "c \<in> set hex_digits \<Longrightarrow> \<not> separator c"
  by (auto simp: hex_digits_def separator_def)

lemma take2_chars:
  assumes "take 2 s = [a, b]"
  shows "s = a # b # drop 2 s"
proof -
  have "s = take 2 s @ drop 2 s" by simp
  with assms show ?thesis by simp
qed

lemma radix_literal_cases:
  assumes "radix_literal s = Some (b, ds)"
  shows "\<exists>x. s = CHR ''0'' # x # drop 2 s \<and> x \<in> set ''xXoObB'' \<and>
           (x \<in> set ''xX'' \<longrightarrow> ds = hex_digits) \<and> set ds \<subseteq> set hex_digits"
  using assms
  by (auto simp: radix_literal_def hex_digits_def split: if_splits dest: take2_chars)

lemma integral_cases:
  assumes "js_integral s" "s \<noteq> []"
  obtains (dec) "list_all is_digit s"
    | (radix) x where "s = CHR ''0'' # x # drop 2 s" "x \<in> set ''xXoObB''" "drop 2 s \<noteq> []"
        "x \<in> set ''xX'' \<Longrightarrow> list_all (\<lambda>c. c \<in> set hex_digits) (drop 2 s)"
        "\<forall>c \<in> set (drop 2 s). c \<in> set hex_digits"
    | (exp) x where "\<not> list_all is_digit s" "radix_literal s = None"
        "takeWhile is_digit s \<noteq> []"
        "dropWhile is_digit s = x # tl (dropWhile is_digit s)" "x \<in> set ''eE''"
        "list_all is_digit (tl (dropWhile is_digit s))"
proof (cases "list_all is_digit s")
  case True
  then show ?thesis by (rule dec)
next
  case nd: False
  show ?thesis
  proof (cases "radix_literal s")
    case None
    with assms nd have e: "takeWhile is_digit s \<noteq> []" "dropWhile is_digit s \<noteq> []"
      "hd (dropWhile is_digit s) \<in> {CHR ''e'', CHR ''E''}"
      "list_all is_digit (tl (dropWhile is_digit s))"
      by (auto simp: js_integral_def StringToNumber_def Let_def split: if_splits option.splits)
    from e(2) have h: "dropWhile is_digit s = hd (dropWhile is_digit s) # tl (dropWhile is_digit s)"
      by simp
    from e(3) have m: "hd (dropWhile is_digit s) \<in> set ''eE''" by simp
    show ?thesis by (rule exp [OF nd None e(1) h m e(4)])
  next
    case (Some p)
    obtain b ds where p: "p = (b, ds)" by (cases p)
    from radix_literal_cases [of s b ds] Some p obtain x where
      x: "s = CHR ''0'' # x # drop 2 s" "x \<in> set ''xXoObB''"
         "x \<in> set ''xX'' \<longrightarrow> ds = hex_digits" "set ds \<subseteq> set hex_digits"
      by blast
    from assms nd Some p have d: "drop 2 s \<noteq> []" "list_all (\<lambda>c. c \<in> set ds) (drop 2 s)"
      by (auto simp: js_integral_def StringToNumber_def split: if_splits option.splits)
    from d(2) x(4) have a: "\<forall>c \<in> set (drop 2 s). c \<in> set hex_digits"
      by (auto simp: list_all_iff)
    have b: "list_all (\<lambda>c. c \<in> set hex_digits) (drop 2 s)" if "x \<in> set ''xX''"
      using that d(2) x(3) by auto
    show ?thesis by (rule radix [OF x(1,2) d(1) b a])
  qed
qed

lemma integral_no_separator:
  assumes "js_integral s" "s \<noteq> []"
  shows "\<forall>c \<in> set s. \<not> separator c"
  using assms
proof (cases rule: integral_cases)
  case dec
  then show ?thesis by (auto simp: list_all_iff dest: digit_not_separator)
next
  case (radix x)
  have "set s = set (CHR ''0'' # x # drop 2 s)" using radix(1) by simp
  then have "set s = {CHR ''0'', x} \<union> set (drop 2 s)" by simp
  moreover have "\<not> separator (CHR ''0'')" "\<not> separator x"
    using radix(2) by (auto simp: separator_def)
  ultimately show ?thesis using radix(5) by (auto dest: hex_not_separator)
next
  case (exp x)
  have "s = takeWhile is_digit s @ dropWhile is_digit s" by simp
  then have "set s = set (takeWhile is_digit s) \<union> set (dropWhile is_digit s)"
    by (metis set_append)
  also have "set (dropWhile is_digit s) = insert x (set (tl (dropWhile is_digit s)))"
    using exp(4) by (metis list.simps(15))
  finally have "set s = set (takeWhile is_digit s) \<union> insert x (set (tl (dropWhile is_digit s)))" .
  moreover have "\<forall>c \<in> set (takeWhile is_digit s). is_digit c"
    by (auto dest: set_takeWhileD)
  moreover have "\<not> separator x" using exp(5) by (auto simp: separator_def)
  ultimately show ?thesis using exp(6) by (auto simp: list_all_iff dest: digit_not_separator)
qed

lemma not_hex_prefix:
  assumes "s = a # b # t" "b \<noteq> CHR ''x''" "b \<noteq> CHR ''X''"
  shows "take 2 s \<notin> {''0x'', ''0X''}"
proof -
  have "take 2 (a # b # t) = [a, b]" by (simp add: numeral_2_eq_2)
  with assms show ?thesis by auto
qed

lemma hex_prefix:
  assumes "s = CHR ''0'' # b # t" "b = CHR ''x'' \<or> b = CHR ''X''"
  shows "take 2 s \<in> {''0x'', ''0X''}"
proof -
  have "take 2 (CHR ''0'' # b # t) = [CHR ''0'', b]" by (simp add: numeral_2_eq_2)
  with assms show ?thesis by auto
qed

lemma digits_not_hex_prefix:
  assumes "list_all is_digit s"
  shows "take 2 s \<notin> {''0x'', ''0X''}"
proof
  assume p: "take 2 s \<in> {''0x'', ''0X''}"
  then obtain b where b: "take 2 s = [CHR ''0'', b]" "b = CHR ''x'' \<or> b = CHR ''X''" by auto
  from take2_chars [OF b(1)] have "b \<in> set s" by (metis list.set_intros)
  with assms have "is_digit b" by (simp add: list_all_iff)
  with b(2) show False by (auto simp: is_digit_def digits_def)
qed

lemma integral_parseInt:
  assumes "js_integral s" "s \<noteq> []"
  shows "\<exists>n. parseInt s = Some n"
  using assms
proof (cases rule: integral_cases)
  case dec
  then have tw: "takeWhile is_digit s = s" by (simp add: list_all_iff)
  have "parseInt s = Some (read_nat s)"
    unfolding parseInt_def Let_def tw using digits_not_hex_prefix [OF dec] assms(2) by simp
  then show ?thesis by simp
next
  case (radix x)
  show ?thesis
  proof (cases "x \<in> set ''xX''")
    case True
    then have t: "take 2 s \<in> {''0x'', ''0X''}"
      using hex_prefix [OF radix(1)] by simp
    from radix(4) [OF True] have tw: "takeWhile (\<lambda>c. c \<in> set hex_digits) (drop 2 s) = drop 2 s"
      by (simp add: list_all_iff)
    have "parseInt s = Some (read_radix 16 (drop 2 s))"
      unfolding parseInt_def Let_def tw using t radix(3) by simp
    then show ?thesis by simp
  next
    case False
    then have t: "take 2 s \<notin> {''0x'', ''0X''}"
      using not_hex_prefix [OF radix(1)] by simp
    have "\<not> is_digit x" using radix(2) False by (auto simp: is_digit_def digits_def)
    moreover have "is_digit (CHR ''0'')" by (simp add: is_digit_def digits_def)
    ultimately have "takeWhile is_digit (CHR ''0'' # x # drop 2 s) = ''0''" by simp
    with radix(1) have tw: "takeWhile is_digit s = ''0''" by simp
    have "parseInt s = Some (read_nat ''0'')"
      unfolding parseInt_def Let_def tw using t by simp
    then show ?thesis by simp
  qed
next
  case (exp x)
  have "take 2 s \<notin> {''0x'', ''0X''}"
    using exp(2) by (auto simp: radix_literal_def split: if_splits)
  with exp(3) show ?thesis unfolding parseInt_def Let_def by simp
qed

lemma trailing_token:
  assumes "isValidTagname tagname" "isBitIndex tagname"
  shows "pathArr_of tagname \<noteq> [] \<and> last (pathArr_of tagname) = last (memArr_of tagname) \<and>
         last (memArr_of tagname) \<noteq> [] \<and> js_integral (last (memArr_of tagname))"
proof -
  define T where "T = last (memArr_of tagname)"
  from assms(2) have m: "length (memArr_of tagname) > 1" "js_integral T"
    by (simp_all add: isBitIndex_def Let_def T_def)
  from m(1) have "\<exists>c \<in> set tagname. c = CHR ''.''"
    using split_on_many [of "\<lambda>c. c = CHR ''.''" tagname] by (simp add: memArr_of_def)
  from split_on_decompose [OF this] obtain pre where
    d: "tagname = pre @ CHR ''.'' # T" "\<forall>c \<in> set T. c \<noteq> CHR ''.''"
    by (auto simp: T_def memArr_of_def)
  from valid_no_dot_end [OF assms(1)] d(1) have T: "T \<noteq> []" by auto
  from integral_no_separator [OF m(2) T] have ns: "\<forall>c \<in> set T. \<not> separator c" .
  have "separator (CHR ''.'')" by (simp add: separator_def)
  from last_split_on_sep [of separator, OF this ns, of pre]
  have l: "last (split_on separator tagname) = T" using d(1) by simp
  have p: "pathArr_of tagname = filter (\<lambda>segment. length segment > 0) (split_on separator tagname)"
    by (simp add: pathArr_of_def)
  have "last (pathArr_of tagname) = T"
    unfolding p using last_filter_keep [of "split_on separator tagname" "\<lambda>segment. length segment > 0"]
      split_on_nonempty [of separator tagname] l T by simp
  moreover have "T \<in> set (pathArr_of tagname)"
  proof -
    have "T \<in> set (split_on separator tagname)"
      using split_on_nonempty [of separator tagname] l last_in_set by metis
    with T show ?thesis unfolding p by simp
  qed
  ultimately show ?thesis using m(2) T by (auto simp: T_def)
qed

lemma bit_string_dot_fails:
  assumes "isBitIndex tagname"
  shows "\<exists>e. Tag_constructor E now tagname program' (ValidType (TypeCode BIT_STRING)) ka = Inl e"
proof (cases "isValidTagname tagname")
  case False
  then show ?thesis by (simp add: Tag_constructor_def)
next
  case True
  from trailing_token [OF True assms] have "isBitString tagname (TypeCode BIT_STRING)"
    by (simp add: isBitString_def Let_def)
  with assms have "resolve_address tagname (TypeCode BIT_STRING) =
      Inl (Error ''Tag cannot be defined as a BIT_STRING and have a bit index'')"
    by (simp add: resolve_address_def Let_def)
  then show ?thesis
    by (cases ka) (auto simp: Tag_constructor_def and_then_def)
qed

lemma constructed_exclusive:
  assumes "Tag_constructor E now tagname program' (ValidType ty) ka = Inr t"
  shows "\<not> (isBitString tagname ty \<and> isBitIndex tagname)"
  using assms
  by (auto simp: Tag_constructor_def and_then_def resolve_address_def Let_def
      split: if_splits number_arg.splits)

text \<open>
  C6. A tag of datatype BIT_STRING whose name ends in a numeric dot token is never
  constructed: the constructor returns an error. No constructed tag has both readings of
  its name.
\<close>

theorem bit_string_exclusive:
  "(isBitIndex tagname \<longrightarrow>
      (\<exists>e. Tag_constructor E now tagname program' (ValidType (TypeCode BIT_STRING)) ka = Inl e)) \<and>
   (Tag_constructor E now tagname program' (ValidType ty) ka = Inr t \<longrightarrow>
      \<not> (isBitString tagname ty \<and> isBitIndex tagname))"
  using bit_string_dot_fails [of tagname E now program' ka]
    constructed_exclusive [of E now tagname program' ty ka t]
  by blast

lemma bitIndexByte_ok: "n \<le> 31 \<Longrightarrow> bitIndexByte (Index n) = Inr [word_of_int (int n)]"
  using index_of_nat [of 0] by (simp add: write_int_def write_at_def)

lemma bitIndexByte_null: "bitIndexByte NullIndex = Inr [32]"
  using index_of_nat [of 0] by (simp add: write_int_def write_at_def)

lemma bitIndexByte_nan: "bitIndexByte NaNIndex = Inr [0]"
  using index_of_nat [of 0] by (simp add: write_int_def write_at_def)

lemma constructor_fields:
  assumes "Tag_constructor E now tagname program' (ValidType ty) ka = Inr t"
  shows "\<exists>pathArr bi byte k. isValidTagname tagname \<and> ka = Number k \<and> 0 \<le> k \<and>
           resolve_address tagname ty = Inr (pathArr, bi) \<and> bitIndexByte bi = Inr byte \<and>
           bitIndex (tag t) = bi \<and> name (tag t) = tagname \<and> program (tag t) = program' \<and>
           type (tag t) = ty \<and>
           path (tag t) = concat (program_segments E program' @ map (DATA_build E) pathArr) \<and>
           instance t = hash E (path (tag t) @ byte) \<and> keepAlive t = k \<and>
           value (tag t) = JNull \<and> controllerValue (tag t) = JNull \<and> \<not> stage_write (tag t) \<and>
           timestamp t = now"
proof -
  from assms have v: "isValidTagname tagname"
    by (auto simp: Tag_constructor_def split: if_splits)
  from assms v obtain k where k: "ka = Number k" "\<not> k < 0"
    by (cases ka) (auto simp: Tag_constructor_def split: if_splits)
  from assms v k obtain pathArr bi where r: "resolve_address tagname ty = Inr (pathArr, bi)"
    by (cases "resolve_address tagname ty") (auto simp: Tag_constructor_def and_then_def)
  from assms v k r obtain byte where b: "bitIndexByte bi = Inr byte"
    by (cases "bitIndexByte bi") (auto simp: Tag_constructor_def and_then_def Let_def)
  from assms v k r b have "t = \<lparr>tag = \<lparr>bitIndex = bi, program = program', name = tagname, type = ty,
                            value = JNull, controller = None, controllerValue = JNull,
                            path = concat (program_segments E program' @ map (DATA_build E) pathArr),
                            stage_write = False\<rparr>,
                     read_size = 1, error = \<lparr>code = None, status = None\<rparr>,
                     timestamp = now,
                     instance = hash E (concat (program_segments E program' @ map (DATA_build E) pathArr) @ byte),
                     keepAlive = k\<rparr>"
    by (simp add: Tag_constructor_def and_then_def Let_def)
  with v k r b show ?thesis by simp
qed


lemma valid_examples:
  "isValidTagname ''tag[44]''" "isValidTagname ''tag.5''" "isValidTagname ''tag.0''"
  "isValidTagname ''tag.31''" "isValidTagname ''tag.32''" "isValidTagname ''other[3]''"
  by code_simp+

lemma resolve_examples:
  "resolve_address ''tag[44]'' (TypeCode BIT_STRING) = Inr ([''tag'', ''1''], Index 12)"
  "resolve_address ''tag.5'' NullType = Inr ([''tag''], Index 5)"
  by (simp_all add: addr_eval show_nat.simps digit_char_def)

lemma token_examples:
  "isBitIndex ''tag.5''" "isBitIndex ''tag.0''" "isBitIndex ''tag.31''" "isBitIndex ''tag.32''"
  "\<not> isBitIndex ''tag[44]''"
  "pathArr_of ''tag[44]'' = [''tag'', ''44'']" "js_integral ''44''" "parseInt ''44'' = Some 44"
  "memArr_of ''tag.0'' = [''tag'', ''0'']" "memArr_of ''tag.31'' = [''tag'', ''31'']"
  "memArr_of ''tag.32'' = [''tag'', ''32'']"
  "pathArr_of ''tag.0'' = [''tag'', ''0'']" "pathArr_of ''tag.31'' = [''tag'', ''31'']"
  "pathArr_of ''tag.32'' = [''tag'', ''32'']"
  "parseInt ''0'' = Some 0" "parseInt ''31'' = Some 31" "parseInt ''32'' = Some 32"
  by (simp_all add: addr_eval)

lemma constructor_ok:
  assumes "isValidTagname tagname" "resolve_address tagname ty = Inr (pathArr, Index n)" "n \<le> 31"
    "0 \<le> k"
  shows "\<exists>t. Tag_constructor E now tagname program' (ValidType ty) (Number k) = Inr t \<and>
           bitIndex (tag t) = Index n \<and>
           path (tag t) = concat (program_segments E program' @ map (DATA_build E) pathArr)"
  using assms
  by (simp add: Tag_constructor_def and_then_def Let_def bitIndexByte_ok del: bitIndexByte.simps)


theorem bit_string_exclusive_witness:
  "isBitIndex ''tag.5'' \<and>
   (\<exists>e. Tag_constructor test_env 0 ''tag.5'' None (ValidType (TypeCode BIT_STRING)) (Number 0) = Inl e) \<and>
   (\<exists>t. Tag_constructor test_env 0 ''tag[44]'' None (ValidType (TypeCode BIT_STRING)) (Number 0) = Inr t) \<and>
   \<not> (isBitString ''tag[44]'' (TypeCode BIT_STRING) \<and> isBitIndex ''tag[44]'')"
proof -
  obtain t where t: "Tag_constructor test_env 0 ''tag[44]'' None (ValidType (TypeCode BIT_STRING)) (Number 0) = Inr t"
    using constructor_ok [OF valid_examples(1) resolve_examples(1), of 0 test_env 0 None] by auto
  from bit_string_exclusive [of "''tag.5''" test_env 0 None "Number 0"]
    bit_string_exclusive [of "''tag[44]''" test_env 0 None "Number 0" "TypeCode BIT_STRING" t] t
  show ?thesis using token_examples(1) by blast
qed

lemma trailing_bit_index:
  assumes "isValidTagname tagname" "isBitIndex tagname" "ty \<noteq> TypeCode BIT_STRING"
  shows "\<exists>n. parseInt (last (memArr_of tagname)) = Some n \<and>
           last (pathArr_of tagname) = last (memArr_of tagname) \<and>
           resolve_address tagname ty =
             (if n > 31 then Inl (Error ''Tag bit index must be between 0 and 31'')
              else Inr (butlast (pathArr_of tagname), Index n))"
proof -
  from trailing_token [OF assms(1,2)] have t: "pathArr_of tagname \<noteq> []"
    "last (pathArr_of tagname) = last (memArr_of tagname)" "last (memArr_of tagname) \<noteq> []"
    "js_integral (last (memArr_of tagname))"
    by simp_all
  from integral_parseInt [OF t(4,3)] obtain n where n: "parseInt (last (memArr_of tagname)) = Some n"
    by blast
  from assms(3) have "\<not> isBitString tagname ty" by (simp add: isBitString_def Let_def)
  with assms(2) t(1,2) n have "resolve_address tagname ty =
      (if n > 31 then Inl (Error ''Tag bit index must be between 0 and 31'')
       else Inr (butlast (pathArr_of tagname), Index n))"
    by (simp add: resolve_address_def Let_def)
  with n t(2) show ?thesis by blast
qed

lemma tag_32_fails: "\<exists>e. Tag_constructor E now ''tag.32'' program' dt ka = Inl e"
proof (cases dt)
  case OtherType
  then show ?thesis by (simp add: Tag_constructor_def)
next
  case (ValidType ty)
  show ?thesis
  proof (cases "ty = TypeCode BIT_STRING")
    case True
    with ValidType bit_string_dot_fails [OF token_examples(4)] show ?thesis by simp
  next
    case False
    from trailing_bit_index [OF valid_examples(5) token_examples(4) False]
    have "resolve_address ''tag.32'' ty = Inl (Error ''Tag bit index must be between 0 and 31'')"
      by (simp add: token_examples)
    with ValidType show ?thesis
      by (cases ka) (auto simp: Tag_constructor_def and_then_def)
  qed
qed

text \<open>
  C7. The names tag.0 and tag.31 construct, under any datatype but BIT_STRING, a tag with
  bit index 0 and 31 and the path of the one segment tag; the name tag.32 constructs no
  tag. In general, in a valid name whose last dot token is numeric, that token is the last
  path segment; it is removed from the path and parsed as the bit index, and a value above
  31 is an error.
\<close>

theorem bit_index_bounds:
  "(ty \<noteq> TypeCode BIT_STRING \<and> 0 \<le> k \<longrightarrow>
      (\<exists>t. Tag_constructor E now ''tag.0'' program' (ValidType ty) (Number k) = Inr t \<and>
           bitIndex (tag t) = Index 0 \<and>
           path (tag t) = concat (program_segments E program' @ [DATA_build E ''tag''])) \<and>
      (\<exists>t. Tag_constructor E now ''tag.31'' program' (ValidType ty) (Number k) = Inr t \<and>
           bitIndex (tag t) = Index 31 \<and>
           path (tag t) = concat (program_segments E program' @ [DATA_build E ''tag'']))) \<and>
   (\<exists>e. Tag_constructor E now ''tag.32'' program' dt ka = Inl e) \<and>
   (isValidTagname tagname \<and> isBitIndex tagname \<and> ty \<noteq> TypeCode BIT_STRING \<longrightarrow>
      (\<exists>n. parseInt (last (memArr_of tagname)) = Some n \<and>
           last (pathArr_of tagname) = last (memArr_of tagname) \<and>
           resolve_address tagname ty =
             (if n > 31 then Inl (Error ''Tag bit index must be between 0 and 31'')
              else Inr (butlast (pathArr_of tagname), Index n))))"
proof (intro conjI impI)
  assume h: "ty \<noteq> TypeCode BIT_STRING \<and> 0 \<le> k"
  from trailing_bit_index [OF valid_examples(3) token_examples(2), of ty] h
  have r0: "resolve_address ''tag.0'' ty = Inr ([''tag''], Index 0)"
    by (simp add: token_examples)
  from trailing_bit_index [OF valid_examples(4) token_examples(3), of ty] h
  have r31: "resolve_address ''tag.31'' ty = Inr ([''tag''], Index 31)"
    by (simp add: token_examples)
  from constructor_ok [OF valid_examples(3) r0, of k E now program'] h
  show "\<exists>t. Tag_constructor E now ''tag.0'' program' (ValidType ty) (Number k) = Inr t \<and>
           bitIndex (tag t) = Index 0 \<and>
           path (tag t) = concat (program_segments E program' @ [DATA_build E ''tag''])"
    by simp
  from constructor_ok [OF valid_examples(4) r31, of k E now program'] h
  show "\<exists>t. Tag_constructor E now ''tag.31'' program' (ValidType ty) (Number k) = Inr t \<and>
           bitIndex (tag t) = Index 31 \<and>
           path (tag t) = concat (program_segments E program' @ [DATA_build E ''tag''])"
    by simp
next
  show "\<exists>e. Tag_constructor E now ''tag.32'' program' dt ka = Inl e"
    by (rule tag_32_fails)
next
  assume "isValidTagname tagname \<and> isBitIndex tagname \<and> ty \<noteq> TypeCode BIT_STRING"
  then show "\<exists>n. parseInt (last (memArr_of tagname)) = Some n \<and>
           last (pathArr_of tagname) = last (memArr_of tagname) \<and>
           resolve_address tagname ty =
             (if n > 31 then Inl (Error ''Tag bit index must be between 0 and 31'')
              else Inr (butlast (pathArr_of tagname), Index n))"
    using trailing_bit_index by blast
qed

theorem bit_index_bounds_witness:
  "(\<exists>t. Tag_constructor test_env 0 ''tag.0'' None (ValidType NullType) (Number 0) = Inr t \<and>
       bitIndex (tag t) = Index 0 \<and> path (tag t) = map of_char ''tag'') \<and>
   (\<exists>t. Tag_constructor test_env 0 ''tag.31'' None (ValidType NullType) (Number 0) = Inr t \<and>
       bitIndex (tag t) = Index 31 \<and> path (tag t) = map of_char ''tag'') \<and>
   (\<exists>e. Tag_constructor test_env 0 ''tag.32'' None (ValidType NullType) (Number 0) = Inl e) \<and>
   isValidTagname ''tag.5'' \<and> isBitIndex ''tag.5'' \<and>
   resolve_address ''tag.5'' NullType = Inr ([''tag''], Index 5)"
proof -
  have h: "NullType \<noteq> TypeCode BIT_STRING \<and> (0::rat) \<le> 0" by simp
  note w = bit_index_bounds [where E = test_env and now = 0 and program' = None and ty = NullType
      and k = 0 and dt = "ValidType NullType" and ka = "Number 0" and tagname = "''tag.5''"]
  from w h have a: "(\<exists>t. Tag_constructor test_env 0 ''tag.0'' None (ValidType NullType) (Number 0) = Inr t \<and>
       bitIndex (tag t) = Index 0 \<and> path (tag t) = map of_char ''tag'') \<and>
     (\<exists>t. Tag_constructor test_env 0 ''tag.31'' None (ValidType NullType) (Number 0) = Inr t \<and>
       bitIndex (tag t) = Index 31 \<and> path (tag t) = map of_char ''tag'')"
    by (simp add: program_segments_def test_env_def)
  from w have b: "\<exists>e. Tag_constructor test_env 0 ''tag.32'' None (ValidType NullType) (Number 0) = Inl e"
    by blast
  show ?thesis
    using a b valid_examples(2) token_examples(1) resolve_examples(2) by blast
qed

text \<open>
  C10. Setting a valid name on a tag changes the stored name and nothing else: path, bit
  index, program and identity stay as they are, and for a tag just constructed they are
  those computed from the address given to the constructor.
\<close>

theorem name_set_frame:
  "(isValidTagname name' \<longrightarrow>
      name_set name' s = Inr (s\<lparr>tag := (tag s)\<lparr>name := name'\<rparr>\<rparr>) \<and>
      (\<forall>s'. name_set name' s = Inr s' \<longrightarrow>
         name (tag s') = name' \<and> path (tag s') = path (tag s) \<and>
         bitIndex (tag s') = bitIndex (tag s) \<and> program (tag s') = program (tag s) \<and>
         instance s' = instance s)) \<and>
   (isValidTagname name' \<and> Tag_constructor E now tagname program' (ValidType ty) ka = Inr s \<longrightarrow>
      (\<exists>s' pathArr bi byte. name_set name' s = Inr s' \<and>
         resolve_address tagname ty = Inr (pathArr, bi) \<and> bitIndexByte bi = Inr byte \<and>
         name (tag s') = name' \<and> bitIndex (tag s') = bi \<and> program (tag s') = program' \<and>
         path (tag s') = concat (program_segments E program' @ map (DATA_build E) pathArr) \<and>
         instance s' = hash E (path (tag s') @ byte)))"
proof (intro conjI impI)
  assume "isValidTagname name'"
  then show "name_set name' s = Inr (s\<lparr>tag := (tag s)\<lparr>name := name'\<rparr>\<rparr>)"
    by (simp add: name_set_def)
  then show "\<forall>s'. name_set name' s = Inr s' \<longrightarrow>
         name (tag s') = name' \<and> path (tag s') = path (tag s) \<and>
         bitIndex (tag s') = bitIndex (tag s) \<and> program (tag s') = program (tag s) \<and>
         instance s' = instance s"
    by auto
next
  assume a: "isValidTagname name' \<and> Tag_constructor E now tagname program' (ValidType ty) ka = Inr s"
  then have n: "name_set name' s = Inr (s\<lparr>tag := (tag s)\<lparr>name := name'\<rparr>\<rparr>)"
    by (simp add: name_set_def)
  from a constructor_fields [of E now tagname program' ty ka s]
  obtain pathArr bi byte where f: "resolve_address tagname ty = Inr (pathArr, bi)"
    "bitIndexByte bi = Inr byte" "bitIndex (tag s) = bi" "program (tag s) = program'"
    "path (tag s) = concat (program_segments E program' @ map (DATA_build E) pathArr)"
    "instance s = hash E (path (tag s) @ byte)"
    by blast
  show "\<exists>s' pathArr bi byte. name_set name' s = Inr s' \<and>
         resolve_address tagname ty = Inr (pathArr, bi) \<and> bitIndexByte bi = Inr byte \<and>
         name (tag s') = name' \<and> bitIndex (tag s') = bi \<and> program (tag s') = program' \<and>
         path (tag s') = concat (program_segments E program' @ map (DATA_build E) pathArr) \<and>
         instance s' = hash E (path (tag s') @ byte)"
    using n f by (intro exI [of _ "s\<lparr>tag := (tag s)\<lparr>name := name'\<rparr>\<rparr>"] exI [of _ pathArr]
        exI [of _ bi] exI [of _ byte]) simp
qed

theorem name_set_frame_witness:
  "isValidTagname ''other[3]'' \<and>
   (\<exists>s s'. Tag_constructor test_env 0 ''tag.5'' None (ValidType NullType) (Number 0) = Inr s \<and>
      name_set ''other[3]'' s = Inr s' \<and> name (tag s') = ''other[3]'' \<and>
      bitIndex (tag s') = Index 5 \<and> program (tag s') = None \<and>
      path (tag s') = map of_char ''tag'' \<and> path (tag s') = path (tag s) \<and>
      instance s' = instance s)"
proof -
  obtain s where s: "Tag_constructor test_env 0 ''tag.5'' None (ValidType NullType) (Number 0) = Inr s"
    using constructor_ok [OF valid_examples(2) resolve_examples(2), of 0 test_env 0 None] by auto
  note w = name_set_frame [where name' = "''other[3]''" and s = s and E = test_env and now = 0
      and tagname = "''tag.5''" and program' = None and ty = NullType and ka = "Number 0"]
  from w valid_examples(6) s obtain s' pathArr bi byte where
    f: "name_set ''other[3]'' s = Inr s'" "resolve_address ''tag.5'' NullType = Inr (pathArr, bi)"
       "name (tag s') = ''other[3]''" "bitIndex (tag s') = bi" "program (tag s') = None"
       "path (tag s') = concat (program_segments test_env None @ map (DATA_build test_env) pathArr)"
    by blast
  from f(2) resolve_examples(2) have p: "pathArr = [''tag'']" "bi = Index 5" by simp_all
  from w valid_examples(6) f(1) have g: "path (tag s') = path (tag s)" "instance s' = instance s"
    by blast+
  from f(6) p have "path (tag s') = map of_char ''tag''"
    by (simp add: program_segments_def test_env_def)
  with s f(1,3,4,5) p g valid_examples(6) show ?thesis by blast
qed

section \<open>Equal JSON text and equal values\<close>




























end
